theory Spec2Isabelle
  imports Main
begin

section \<open>Data model\<close>

text \<open>
  The node lifecycle of \<^verbatim>\<open>src/maasserver/api.py\<close>. The handlers are embedded with
  explicit state passing: every handler takes the database and returns its result (an
  exception is the left injection of a sum) together with the database it leaves behind.

  The model layer (\<^verbatim>\<open>maasserver.models\<close>, \<^verbatim>\<open>maasserver.enum\<close>) is not part of
  the sources at hand. The status enumeration follows the specification's data model; the
  authorization decision, the display name of a status, the creation form and the settings
  are parameters, collected in the record \<open>env\<close>.
\<close>

datatype NODE_STATUS =
  DECLARED | COMMISSIONING | FAILED_TESTS | READY | ALLOCATED | RESERVED | RETIRED

datatype NODE_PERMISSION = VIEW | EDIT | ADMIN

record User =
  username :: string
  is_superuser :: bool

record Node =
  system_id :: string
  hostname :: string
  status :: NODE_STATUS
  owner :: "User option"
  updated :: int

text \<open>A MAC address row refers to its node by the node's \<open>system_id\<close>.\<close>

record MACAddress =
  mac_address :: string
  node_id :: string

text \<open>The tables: rows in primary-key order. \<open>tokens\<close> holds the keys of the rows of
  the OAuth token table, one entry for each row; a token is identified with its key.\<close>

record database =
  nodes :: "Node list"
  macaddresses :: "MACAddress list"
  tokens :: "string list"

text \<open>A \<^verbatim>\<open>QueryDict\<close> maps a key to the list of values submitted for it.\<close>

type_synonym QueryDict = "string \<Rightarrow> string list"

record request =
  user :: User
  GET :: QueryDict
  POST :: QueryDict
  data :: QueryDict
  HTTP_AUTHORIZATION :: "string option"

datatype error =
    NodeStateViolation string
  | MAASAPIBadRequest string
  | PermissionDenied string
  | NodesNotAvailable string
  | Unauthorized string
  | ValidationError string
  | InvalidTransition NODE_STATUS NODE_STATUS
  | Http404
  | MultipleObjectsReturned
  | TypeError

text \<open>
  What the handlers consume from outside this file:
  \<^item> \<open>has_perm\<close>: \<^verbatim>\<open>user.has_perm(perm, node)\<close>, the authorization collaborator;
  \<^item> \<open>display_status\<close>: \<^verbatim>\<open>node.display_status()\<close>;
  \<^item> \<open>COMMISSIONING_TIMEOUT\<close>: \<^verbatim>\<open>settings.COMMISSIONING_TIMEOUT\<close>, in minutes;
  \<^item> \<open>b64decode\<close>: \<^verbatim>\<open>base64.b64decode\<close>, \<open>None\<close> where it raises;
  \<^item> \<open>node_create_form\<close>: the creation form of \<^verbatim>\<open>get_node_create_form(user)\<close>
    applied to the request data: \<open>None\<close> when the form is invalid, otherwise the
    \<open>system_id\<close> and \<open>hostname\<close> of the node that \<^verbatim>\<open>form.save()\<close> creates.
\<close>

record env =
  has_perm :: "User \<Rightarrow> NODE_PERMISSION \<Rightarrow> Node \<Rightarrow> bool"
  display_status :: "Node \<Rightarrow> string"
  COMMISSIONING_TIMEOUT :: int
  b64decode :: "string \<Rightarrow> string option"
  node_create_form :: "User \<Rightarrow> QueryDict \<Rightarrow> (string \<times> string) option"

section \<open>Request parameters\<close>

text \<open>\<^verbatim>\<open>QueryDict.get(key, None)\<close>: the last value submitted for the key.\<close>

definition QueryDict_get :: "QueryDict \<Rightarrow> string \<Rightarrow> string option" where
  "QueryDict_get d key = (if d key = [] then None else Some (last (d key)))"

definition getlist :: "QueryDict \<Rightarrow> string \<Rightarrow> string list" where
  "getlist d key = d key"

text \<open>\<^verbatim>\<open>get_mandatory_param(data, key, validator=None)\<close>. A validator returns
  the converted value on the right, the message of \<^verbatim>\<open>Invalid\<close> on the left.\<close>

definition get_mandatory_param ::
  "QueryDict \<Rightarrow> string \<Rightarrow> (string \<Rightarrow> string + string) option \<Rightarrow> error + string" where
  "get_mandatory_param d key validator =
     (case QueryDict_get d key of
        None \<Rightarrow> Inl (ValidationError (''No provided '' @ key @ ''!''))
      | Some v \<Rightarrow>
          (case validator of
             Some to_python \<Rightarrow>
               (case to_python v of
                  Inl msg \<Rightarrow> Inl (ValidationError (''Invalid '' @ key @ '': '' @ msg))
                | Inr r \<Rightarrow> Inr r)
           | None \<Rightarrow> Inr v))"

section \<open>Storage\<close>

text \<open>Modelled from the spec: the storage collaborator's \<open>save(NodeRecord)\<close>
  (\<^verbatim>\<open>Node.save\<close> of \<^verbatim>\<open>maasserver.models\<close>, which is not among the sources):
  the row of the node's \<open>system_id\<close> is replaced by the node.\<close>

definition save :: "Node \<Rightarrow> database \<Rightarrow> database" where
  "save n db =
     db\<lparr>nodes := map (\<lambda>m. if system_id m = system_id n then n else m) (nodes db)\<rparr>"

text \<open>Modelled from the spec: \<^verbatim>\<open>Node.objects.get_node_or_404\<close>
  (\<^verbatim>\<open>maasserver.models\<close>, not among the sources): the storage collaborator's
  \<open>get(system_id)\<close>, \<open>NotFound\<close> for an unknown id, and \<open>PermissionDenied\<close> when
  the authorization collaborator refuses the permission.\<close>

definition get_node_or_404 ::
  "env \<Rightarrow> database \<Rightarrow> string \<Rightarrow> User \<Rightarrow> NODE_PERMISSION \<Rightarrow> error + Node" where
  "get_node_or_404 e db sid u perm =
     (case find (\<lambda>n. system_id n = sid) (nodes db) of
        None \<Rightarrow> Inl Http404
      | Some n \<Rightarrow> if has_perm e u perm n then Inr n else Inl (PermissionDenied []))"

section \<open>NodeHandler.release\<close>

text \<open>Modelled from the spec: \<^verbatim>\<open>Node.release\<close> (\<^verbatim>\<open>maasserver.models\<close>, not
  among the sources): "clears owner and sets Ready", and persists the node.\<close>

definition Node_release :: "Node \<Rightarrow> database \<Rightarrow> Node \<times> database" where
  "Node_release n db =
     (let n' = n\<lparr>status := READY, owner := None\<rparr> in (n', save n' db))"

definition release_violation_message :: "string \<Rightarrow> string" where
  "release_violation_message shown =
     ''Node cannot be released in its current state ('' @ [CHR 0x27] @ shown
       @ [CHR 0x27] @ '').''"

definition release ::
  "env \<Rightarrow> database \<Rightarrow> request \<Rightarrow> string \<Rightarrow> (error + Node) \<times> database" where
  "release e db req sid =
     (case get_node_or_404 e db sid (user req) EDIT of
        Inl err \<Rightarrow> (Inl err, db)
      | Inr n \<Rightarrow>
          if status n = READY then (Inr n, db)
          else if status n \<in> set [ALLOCATED, RESERVED] then
            (case Node_release n db of (n', db') \<Rightarrow> (Inr n', db'))
          else
            (Inl (NodeStateViolation (release_violation_message (display_status e n))), db))"

section \<open>AnonNodesHandler.accept\<close>

definition anon_accept :: "database \<Rightarrow> request \<Rightarrow> (error + Node list) \<times> database" where
  "anon_accept db req = (Inl (Unauthorized ''You must be logged in to accept nodes.''), db)"

section \<open>AnonNodesHandler.is_registered\<close>

text \<open>The node row that a MAC address row is joined with.\<close>

definition node_of :: "database \<Rightarrow> MACAddress \<Rightarrow> Node option" where
  "node_of db m = find (\<lambda>n. system_id n = node_id m) (nodes db)"

text \<open>\<^verbatim>\<open>MACAddress.objects.filter(mac_address=...).exclude(node__status=RETIRED).exists()\<close>:
  the rows with that address, joined with their node, less those whose node is Retired.\<close>

definition is_registered :: "database \<Rightarrow> request \<Rightarrow> error + bool" where
  "is_registered db req =
     (case get_mandatory_param (GET req) ''mac_address'' None of
        Inl err \<Rightarrow> Inl err
      | Inr mac \<Rightarrow>
          Inr (filter (\<lambda>m. case node_of db m of
                             None \<Rightarrow> False
                           | Some n \<Rightarrow> \<not> (status n = RETIRED))
                 (filter (\<lambda>m. mac_address m = mac) (macaddresses db)) \<noteq> []))"

section \<open>AnonNodesHandler.check_commissioning\<close>

text \<open>A \<^verbatim>\<open>datetime\<close> is the number of microseconds since the epoch, a
  \<^verbatim>\<open>timedelta\<close> a number of microseconds.\<close>

definition timedelta_minutes :: "int \<Rightarrow> int" where
  "timedelta_minutes m = m * 60000000"

text \<open>\<open>now\<close> is what \<^verbatim>\<open>datetime.now()\<close> returns. The query set's \<^verbatim>\<open>update\<close>
  writes the one column to the selected rows; no \<^verbatim>\<open>save()\<close> runs.\<close>

definition check_commissioning :: "env \<Rightarrow> int \<Rightarrow> database \<Rightarrow> request \<Rightarrow> database" where
  "check_commissioning e now db req =
     (let interval = timedelta_minutes (COMMISSIONING_TIMEOUT e);
          cutoff = now - interval
      in db\<lparr>nodes :=
            map (\<lambda>n. if status n = COMMISSIONING \<and> updated n \<le> cutoff
                      then n\<lparr>status := FAILED_TESTS\<rparr> else n)
              (nodes db)\<rparr>)"

section \<open>OAuth token of a request\<close>

definition is_space :: "char \<Rightarrow> bool" where
  "is_space c = (c \<in> set [CHR '' '', CHR 0x09, CHR 0x0A, CHR 0x0B, CHR 0x0C, CHR 0x0D])"

text \<open>\<^verbatim>\<open>str.split()\<close>: the maximal runs of characters that are not whitespace.
  The first argument is the run read so far.\<close>

fun py_split :: "string \<Rightarrow> string \<Rightarrow> string list" where
  "py_split w [] = (if w = [] then [] else [w])"
| "py_split w (c # cs) =
     (if is_space c then (if w = [] then py_split [] cs else w # py_split [] cs)
      else py_split (w @ [c]) cs)"

text \<open>\<^verbatim>\<open>entry.split('=', 1)\<close>.\<close>

definition split_eq1 :: "string \<Rightarrow> string list" where
  "split_eq1 s =
     (if CHR ''='' \<in> set s
      then [takeWhile (\<lambda>c. c \<noteq> CHR ''='') s, tl (dropWhile (\<lambda>c. c \<noteq> CHR ''='') s)]
      else [s])"

text \<open>\<^verbatim>\<open>value.rstrip(',').strip('"')\<close>.\<close>

definition rstrip_strip :: "string \<Rightarrow> string" where
  "rstrip_strip v =
     (let r = rev (dropWhile (\<lambda>c. c = CHR '','') (rev v))
      in rev (dropWhile (\<lambda>c. c = CHR 0x22) (rev (dropWhile (\<lambda>c. c = CHR 0x22) r))))"

fun oauth_key_of_entries :: "string list \<Rightarrow> string option" where
  "oauth_key_of_entries [] = None"
| "oauth_key_of_entries (entry # rest) =
     (case split_eq1 entry of
        [key, v] \<Rightarrow>
          if key = ''oauth_token'' then Some (rstrip_strip v) else oauth_key_of_entries rest
      | _ \<Rightarrow> oauth_key_of_entries rest)"

definition extract_oauth_key_from_auth_header :: "string \<Rightarrow> string option" where
  "extract_oauth_key_from_auth_header auth_data = oauth_key_of_entries (py_split [] auth_data)"

definition extract_oauth_key :: "request \<Rightarrow> error + string" where
  "extract_oauth_key req =
     (case HTTP_AUTHORIZATION req of
        None \<Rightarrow> Inl (Unauthorized ''No authorization header received.'')
      | Some auth_header \<Rightarrow>
          (case extract_oauth_key_from_auth_header auth_header of
             None \<Rightarrow>
               Inl (Unauthorized (''Did not find request'' @ [CHR 0x27] @ ''s oauth token.''))
           | Some key \<Rightarrow> Inr key))"

text \<open>\<^verbatim>\<open>Token.objects.get(key=...)\<close>: the one row with that key. The handler catches
  \<^verbatim>\<open>Token.DoesNotExist\<close> only, so that \<^verbatim>\<open>MultipleObjectsReturned\<close> goes through.\<close>

definition get_oauth_token :: "database \<Rightarrow> request \<Rightarrow> error + string" where
  "get_oauth_token db req =
     (case extract_oauth_key req of
        Inl err \<Rightarrow> Inl err
      | Inr key \<Rightarrow>
          (case filter (\<lambda>t. t = key) (tokens db) of
             [] \<Rightarrow> Inl (Unauthorized ''Unknown OAuth token.'')
           | [t] \<Rightarrow> Inr t
           | _ \<Rightarrow> Inl MultipleObjectsReturned))"

section \<open>NodesHandler.acquire\<close>

definition extract_constraints :: "QueryDict \<Rightarrow> (string \<rightharpoonup> string)" where
  "extract_constraints request_params =
     (case QueryDict_get request_params ''name'' of
        None \<Rightarrow> Map.empty
      | Some name \<Rightarrow> [''name'' \<mapsto> name])"

definition matches_constraints :: "(string \<rightharpoonup> string) \<Rightarrow> Node \<Rightarrow> bool" where
  "matches_constraints constraints n =
     (case constraints ''name'' of None \<Rightarrow> True | Some name \<Rightarrow> hostname n = name)"

text \<open>Modelled from the spec: \<^verbatim>\<open>Node.objects.get_available_node_for_acquisition\<close>
  (\<^verbatim>\<open>maasserver.models\<close>, not among the sources): the candidates are "all NodeRecords
  with status==Ready visible to requester ... filtered by constraints (currently only name
  equality is supported; absent constraint matches all)"; "pick one matching candidate",
  here the first in table order; \<open>None\<close> when there is none.\<close>

definition get_available_node_for_acquisition ::
  "env \<Rightarrow> database \<Rightarrow> User \<Rightarrow> (string \<rightharpoonup> string) \<Rightarrow> Node option" where
  "get_available_node_for_acquisition e db for_user constraints =
     find (\<lambda>n. status n = READY \<and> has_perm e for_user VIEW n
                \<and> matches_constraints constraints n)
       (nodes db)"

text \<open>Modelled from the spec: \<^verbatim>\<open>Node.acquire\<close> (\<^verbatim>\<open>maasserver.models\<close>, not
  among the sources): "sets owner = requester, status = Allocated", and persists the node.\<close>

definition Node_acquire :: "Node \<Rightarrow> User \<Rightarrow> string \<Rightarrow> database \<Rightarrow> Node \<times> database" where
  "Node_acquire n by_user token db =
     (let n' = n\<lparr>status := ALLOCATED, owner := Some by_user\<rparr> in (n', save n' db))"

definition acquire :: "env \<Rightarrow> database \<Rightarrow> request \<Rightarrow> (error + Node) \<times> database" where
  "acquire e db req =
     (case get_available_node_for_acquisition e db (user req)
             (extract_constraints (data req)) of
        None \<Rightarrow> (Inl (NodesNotAvailable ''No matching node is available.''), db)
      | Some n \<Rightarrow>
          (case get_oauth_token db req of
             Inl err \<Rightarrow> (Inl err, db)
           | Inr token \<Rightarrow>
               (case Node_acquire n (user req) token db of (n', db') \<Rightarrow> (Inr n', db'))))"

section \<open>NodesHandler.accept\<close>

text \<open>\<^verbatim>\<open>sep.join(xs)\<close>.\<close>

fun join :: "string \<Rightarrow> string list \<Rightarrow> string" where
  "join sep [] = []"
| "join sep [x] = x"
| "join sep (x # y # ys) = x @ sep @ join sep (y # ys)"

definition unknown_nodes_message :: "string list \<Rightarrow> string" where
  "unknown_nodes_message ids = ''Unknown node(s): '' @ join '', '' ids @ ''.''"

definition accept_denied_message :: "string list \<Rightarrow> string" where
  "accept_denied_message ids =
     ''You don'' @ [CHR 0x27] @ ''t have the required permission to accept the ''
       @ ''following node(s): '' @ join '', '' ids @ ''.''"

text \<open>Modelled from the spec: \<^verbatim>\<open>Node.objects.get_nodes(user, perm, ids)\<close>
  (\<^verbatim>\<open>maasserver.models\<close>, not among the sources): the nodes among \<open>ids\<close> on which
  the authorization collaborator grants the user the permission, in table order.\<close>

definition get_nodes ::
  "env \<Rightarrow> database \<Rightarrow> User \<Rightarrow> NODE_PERMISSION \<Rightarrow> string list \<Rightarrow> Node list" where
  "get_nodes e db u perm ids =
     filter (\<lambda>n. has_perm e u perm n \<and> system_id n \<in> set ids) (nodes db)"

text \<open>Modelled from the spec: \<^verbatim>\<open>Node.accept_enlistment\<close> (\<^verbatim>\<open>maasserver.models\<close>,
  not among the sources): "transition each from Declared\<rightarrow>Ready (already-accepted nodes are
  silently skipped, not an error)"; the result is the node when its status changed, and
  nothing otherwise. In any other status the transition is not one of the table and
  "fails with InvalidTransition naming current and requested status".\<close>

definition accept_enlistment ::
  "Node \<Rightarrow> User \<Rightarrow> database \<Rightarrow> (error + Node option) \<times> database" where
  "accept_enlistment n u db =
     (if status n = READY then (Inr None, db)
      else if status n \<noteq> DECLARED then
        (Inl (InvalidTransition (status n) READY), db)
      else (let n' = n\<lparr>status := READY\<rparr> in (Inr (Some n'), save n' db)))"

text \<open>The list comprehension \<^verbatim>\<open>[node.accept_enlistment(request.user) for node in nodes]\<close>:
  the nodes are accepted one after the other; an exception ends the loop and leaves the
  nodes accepted so far as they are.\<close>

fun accept_each ::
  "User \<Rightarrow> Node list \<Rightarrow> database \<Rightarrow> (error + Node option list) \<times> database" where
  "accept_each u [] db = (Inr [], db)"
| "accept_each u (n # ns) db =
     (case accept_enlistment n u db of
        (Inl err, db') \<Rightarrow> (Inl err, db')
      | (Inr r, db') \<Rightarrow>
          (case accept_each u ns db' of
             (Inl err, db'') \<Rightarrow> (Inl err, db'')
           | (Inr rs, db'') \<Rightarrow> (Inr (r # rs), db'')))"

text \<open>The Python sets \<open>system_ids\<close>, \<open>existing_ids\<close> and \<open>ids\<close> are lists without
  repetition; the order in which a set is joined into a message is not fixed by Python,
  and is here the order of the list.\<close>

definition accept :: "env \<Rightarrow> database \<Rightarrow> request \<Rightarrow> (error + Node list) \<times> database" where
  "accept e db req =
     (let system_ids = remdups (getlist (POST req) ''nodes'');
          existing_ids = remdups (map system_id (nodes db))
      in if length existing_ids < length system_ids then
           (Inl (MAASAPIBadRequest
              (unknown_nodes_message (filter (\<lambda>i. i \<notin> set existing_ids) system_ids))), db)
         else
           (let ns = get_nodes e db (user req) ADMIN system_ids;
                ids = remdups (map system_id ns)
            in if length ns < length system_ids then
                 (Inl (PermissionDenied
                    (accept_denied_message (filter (\<lambda>i. i \<notin> set ids) system_ids))), db)
               else
                 (case accept_each (user req) ns db of
                    (Inl err, db') \<Rightarrow> (Inl err, db')
                  | (Inr rs, db') \<Rightarrow> (Inr (List.map_filter (\<lambda>r. r) rs), db'))))"

section \<open>Enlistment: create_node and the two new handlers\<close>

text \<open>Modelled from the spec: the effect of \<^verbatim>\<open>form.save()\<close> in \<open>create_node\<close>
  (the form classes of \<^verbatim>\<open>maasserver.forms\<close> are not among the sources): "creates a
  NodeRecord in Declared status from attributes", without an owner. \<open>now\<close> is the time
  of the request.\<close>

definition create_node :: "env \<Rightarrow> int \<Rightarrow> database \<Rightarrow> request \<Rightarrow> (error + Node) \<times> database" where
  "create_node e now db req =
     (case node_create_form e (user req) (data req) of
        None \<Rightarrow> (Inl (ValidationError []), db)
      | Some (sid, h) \<Rightarrow>
          (let n = \<lparr>system_id = sid, hostname = h, status = DECLARED, owner = None,
                    updated = now\<rparr>
           in (Inr n, db\<lparr>nodes := nodes db @ [n]\<rparr>)))"

definition anon_new :: "env \<Rightarrow> int \<Rightarrow> database \<Rightarrow> request \<Rightarrow> (error + Node) \<times> database" where
  "anon_new e now db req = create_node e now db req"

definition new :: "env \<Rightarrow> int \<Rightarrow> database \<Rightarrow> request \<Rightarrow> (error + Node) \<times> database" where
  "new e now db req =
     (case create_node e now db req of
        (Inl err, db') \<Rightarrow> (Inl err, db')
      | (Inr n, db') \<Rightarrow>
          if is_superuser (user req) then
            (case accept_enlistment n (user req) db' of
               (Inl err, db'') \<Rightarrow> (Inl err, db'')
             | (Inr r, db'') \<Rightarrow> (Inr (case r of None \<Rightarrow> n | Some n' \<Rightarrow> n'), db''))
          else (Inr n, db'))"

section \<open>NodeHandler.start and NodeHandler.stop\<close>

text \<open>Modelled from the spec: \<^verbatim>\<open>Node.objects.start_nodes\<close> and
  \<^verbatim>\<open>Node.objects.stop_nodes\<close> (\<^verbatim>\<open>maasserver.models\<close>, not among the sources):
  "authorize, then trigger an external power-control collaborator". The result is the
  nodes among \<open>ids\<close> that the user may edit; the power request goes to the collaborator
  and no row of the node table is written.\<close>

definition start_nodes ::
  "env \<Rightarrow> database \<Rightarrow> string list \<Rightarrow> User \<Rightarrow> string option \<Rightarrow> Node list \<times> database" where
  "start_nodes e db ids by_user user_data = (get_nodes e db by_user EDIT ids, db)"

definition stop_nodes ::
  "env \<Rightarrow> database \<Rightarrow> string list \<Rightarrow> User \<Rightarrow> Node list \<times> database" where
  "stop_nodes e db ids by_user = (get_nodes e db by_user EDIT ids, db)"

definition stop :: "env \<Rightarrow> database \<Rightarrow> request \<Rightarrow> string \<Rightarrow> (error + Node) \<times> database" where
  "stop e db req sid =
     (case stop_nodes e db [sid] (user req) of
        ([], db') \<Rightarrow>
          (Inl (PermissionDenied ''You are not allowed to shut down this node.''), db')
      | (n # _, db') \<Rightarrow> (Inr n, db'))"

definition start :: "env \<Rightarrow> database \<Rightarrow> request \<Rightarrow> string \<Rightarrow> (error + Node) \<times> database" where
  "start e db req sid =
     (case (case QueryDict_get (POST req) ''user_data'' of
              None \<Rightarrow> Inr None
            | Some d \<Rightarrow>
                (case b64decode e d of None \<Rightarrow> Inl TypeError | Some b \<Rightarrow> Inr (Some b))) of
        Inl err \<Rightarrow> (Inl err, db)
      | Inr user_data \<Rightarrow>
          (case start_nodes e db [sid] (user req) user_data of
             ([], db') \<Rightarrow>
               (Inl (PermissionDenied ''You are not allowed to start up this node.''), db')
           | (n # _, db') \<Rightarrow> (Inr n, db')))"

section \<open>The invariants of the data model\<close>

text \<open>A node has an owner exactly when it is Allocated or Reserved.\<close>

definition owner_invariant :: "Node \<Rightarrow> bool" where
  "owner_invariant n = ((owner n \<noteq> None) = (status n = ALLOCATED \<or> status n = RESERVED))"

definition db_invariant :: "database \<Rightarrow> bool" where
  "db_invariant db = list_all owner_invariant (nodes db)"

text \<open>\<open>system_id\<close> is unique among the nodes.\<close>

definition unique_ids :: "database \<Rightarrow> bool" where
  "unique_ids db = distinct (map system_id (nodes db))"

text \<open>The status stored for a \<open>system_id\<close>.\<close>

definition status_of :: "database \<Rightarrow> string \<Rightarrow> NODE_STATUS option" where
  "status_of db sid = map_option status (find (\<lambda>n. system_id n = sid) (nodes db))"

text \<open>The specification's candidates of an \<open>acquire\<close> request: Ready, visible to the
  requester, and of the requested name when the request gives one.\<close>

definition is_candidate :: "env \<Rightarrow> request \<Rightarrow> Node \<Rightarrow> bool" where
  "is_candidate e req n =
     (status n = READY \<and> has_perm e (user req) VIEW n
      \<and> (case QueryDict_get (data req) ''name'' of
            None \<Rightarrow> True
          | Some name \<Rightarrow> hostname n = name))"

section \<open>Concrete data for the examples\<close>

definition alice :: User where
  "alice = \<lparr>username = ''alice'', is_superuser = False\<rparr>"

definition root :: User where
  "root = \<lparr>username = ''root'', is_superuser = True\<rparr>"

definition no_params :: QueryDict where
  "no_params = (\<lambda>k. [])"

definition mk_node :: "string \<Rightarrow> string \<Rightarrow> NODE_STATUS \<Rightarrow> User option \<Rightarrow> int \<Rightarrow> Node" where
  "mk_node sid h s ow t =
     \<lparr>system_id = sid, hostname = h, status = s, owner = ow, updated = t\<rparr>"

definition status_name :: "NODE_STATUS \<Rightarrow> string" where
  "status_name s =
     (case s of
        DECLARED \<Rightarrow> ''Declared'' | COMMISSIONING \<Rightarrow> ''Commissioning''
      | FAILED_TESTS \<Rightarrow> ''Failed tests'' | READY \<Rightarrow> ''Ready''
      | ALLOCATED \<Rightarrow> ''Allocated'' | RESERVED \<Rightarrow> ''Reserved'' | RETIRED \<Rightarrow> ''Retired'')"

text \<open>An environment in which superusers may do everything and other users may view
  unowned nodes and view and edit their own.\<close>

definition env0 :: env where
  "env0 =
     \<lparr>has_perm = (\<lambda>u p n. is_superuser u \<or>
          (case p of
             VIEW \<Rightarrow> owner n = None \<or> owner n = Some u
           | EDIT \<Rightarrow> owner n = Some u
           | ADMIN \<Rightarrow> False)),
      display_status = (\<lambda>n. status_name (status n)),
      COMMISSIONING_TIMEOUT = 60,
      b64decode = (\<lambda>s. Some s),
      node_create_form = (\<lambda>u d.
          (case (QueryDict_get d ''system_id'', QueryDict_get d ''hostname'') of
             (Some i, Some h) \<Rightarrow> Some (i, h)
           | _ \<Rightarrow> None))\<rparr>"

definition req_of :: "User \<Rightarrow> request" where
  "req_of u =
     \<lparr>user = u, GET = no_params, POST = no_params, data = no_params,
      HTTP_AUTHORIZATION = None\<rparr>"

definition db1 :: database where
  "db1 =
     \<lparr>nodes =
        [mk_node ''n1'' ''alpha'' DECLARED None 0,
         mk_node ''n2'' ''beta'' READY None 10,
         mk_node ''n3'' ''gamma'' ALLOCATED (Some alice) 20,
         mk_node ''n4'' ''delta'' COMMISSIONING None 30,
         mk_node ''n5'' ''epsilon'' RETIRED None 40],
      macaddresses =
        [\<lparr>mac_address = ''AA:BB:CC:DD:EE:FF'', node_id = ''n2''\<rparr>,
         \<lparr>mac_address = ''00:11:22:33:44:55'', node_id = ''n5''\<rparr>],
      tokens = [''tok'']\<rparr>"

definition post_nodes :: "User \<Rightarrow> string list \<Rightarrow> request" where
  "post_nodes u ids = (req_of u)\<lparr>POST := (\<lambda>k. if k = ''nodes'' then ids else [])\<rparr>"

definition get_mac :: "string \<Rightarrow> request" where
  "get_mac mac =
     (req_of alice)\<lparr>GET := (\<lambda>k. if k = ''mac_address'' then [mac] else [])\<rparr>"

definition acquire_req :: "User \<Rightarrow> string list \<Rightarrow> request" where
  "acquire_req u names =
     (req_of u)\<lparr>data := (\<lambda>k. if k = ''name'' then names else []),
                 HTTP_AUTHORIZATION := Some ''OAuth oauth_token=\"tok\", oauth_nonce=\"1\"''\<rparr>"

section \<open>Auxiliary facts\<close>

lemma find_unique_iff:
  "distinct (map f xs) \<Longrightarrow> (find (\<lambda>n. f n = k) xs = Some n) = (n \<in> set xs \<and> f n = k)"
  by (induction xs) (auto simp: rev_image_eqI)

lemma node_of_Some_iff:
  "unique_ids db \<Longrightarrow> (node_of db m = Some n) = (n \<in> set (nodes db) \<and> system_id n = node_id m)"
  by (simp add: node_of_def unique_ids_def find_unique_iff)

lemma join_butlast_last:
  "ids \<noteq> [] \<Longrightarrow> join sep ids = concat (map (\<lambda>i. i @ sep) (butlast ids)) @ last ids"
  by (induction sep ids rule: join.induct) simp_all

lemma unique_ids_eq:
  "unique_ids db \<Longrightarrow> n \<in> set (nodes db) \<Longrightarrow> m \<in> set (nodes db)
     \<Longrightarrow> system_id n = system_id m \<Longrightarrow> n = m"
  by (auto simp: unique_ids_def distinct_map dest: inj_onD)

lemma get_nodes_distinct_ids:
  "unique_ids db \<Longrightarrow> distinct (map system_id (get_nodes e db u perm ids))"
  by (simp add: unique_ids_def get_nodes_def distinct_map_filter)

lemma existence_check_passes:
  assumes "set batch \<subseteq> system_id ` set (nodes db)"
  shows "\<not> length (remdups (map system_id (nodes db))) < length (remdups batch)"
proof -
  have "card (set batch) \<le> card (system_id ` set (nodes db))"
    using assms by (simp add: card_mono)
  then show ?thesis
    by (simp add: length_remdups_card_conv)
qed

lemma denied_ids_set:
  assumes u: "unique_ids db"
      and sub: "set batch \<subseteq> system_id ` set (nodes db)"
  shows "set (filter (\<lambda>i. i \<notin> set (remdups (map system_id (get_nodes e db usr perm (remdups batch)))))
            (remdups batch))
         = {system_id n | n. n \<in> set (nodes db) \<and> system_id n \<in> set batch
                              \<and> \<not> has_perm e usr perm n}"
  (is "?L = ?R")
proof
  show "?L \<subseteq> ?R"
  proof
    fix i assume "i \<in> ?L"
    then have i: "i \<in> set batch"
      and ni: "i \<notin> system_id ` set (get_nodes e db usr perm (remdups batch))"
      by auto
    from i sub obtain n where n: "n \<in> set (nodes db)" "system_id n = i" by auto
    with i ni have "\<not> has_perm e usr perm n"
      by (auto simp: get_nodes_def)
    with n i show "i \<in> ?R" by auto
  qed
  show "?R \<subseteq> ?L"
  proof
    fix i assume "i \<in> ?R"
    then obtain n where n: "n \<in> set (nodes db)" "system_id n = i" "i \<in> set batch"
      "\<not> has_perm e usr perm n" by auto
    have "i \<notin> system_id ` set (get_nodes e db usr perm (remdups batch))"
    proof
      assume "i \<in> system_id ` set (get_nodes e db usr perm (remdups batch))"
      then obtain m where m: "m \<in> set (nodes db)" "has_perm e usr perm m" "system_id m = i"
        by (auto simp: get_nodes_def)
      with n u have "m = n" by (auto dest: unique_ids_eq)
      with m n show False by simp
    qed
    with n show "i \<in> ?L" by simp
  qed
qed

lemma permission_check_fails:
  assumes u: "unique_ids db"
      and n: "n \<in> set (nodes db)" "system_id n \<in> set batch" "\<not> has_perm e usr perm n"
  shows "length (get_nodes e db usr perm (remdups batch)) < length (remdups batch)"
proof -
  let ?ns = "get_nodes e db usr perm (remdups batch)"
  have d: "distinct (map system_id ?ns)"
    using u by (rule get_nodes_distinct_ids)
  have sub: "system_id ` set ?ns \<subseteq> set batch"
    by (auto simp: get_nodes_def)
  have "system_id n \<notin> system_id ` set ?ns"
  proof
    assume "system_id n \<in> system_id ` set ?ns"
    then obtain m where m: "m \<in> set (nodes db)" "has_perm e usr perm m"
      "system_id m = system_id n"
      by (auto simp: get_nodes_def)
    with n u have "m = n" by (auto dest: unique_ids_eq)
    with m n show False by simp
  qed
  with sub n(2) have "system_id ` set ?ns \<subset> set batch" by auto
  then have "card (system_id ` set ?ns) < card (set batch)"
    by (simp add: psubset_card_mono)
  moreover have "card (system_id ` set ?ns) = length ?ns"
    using d distinct_card [of "map system_id ?ns"] by simp
  ultimately show ?thesis
    by (simp add: length_remdups_card_conv)
qed

lemma matches_extract_constraints:
  "matches_constraints (extract_constraints d) n =
     (case QueryDict_get d ''name'' of None \<Rightarrow> True | Some name \<Rightarrow> hostname n = name)"
  by (simp add: matches_constraints_def extract_constraints_def split: option.splits)

lemma available_node_is_find:
  "get_available_node_for_acquisition e db (user req) (extract_constraints (data req))
     = find (is_candidate e req) (nodes db)"
  by (simp add: get_available_node_for_acquisition_def is_candidate_def [abs_def]
        matches_extract_constraints)

lemma find_Some_member: "find P xs = Some x \<Longrightarrow> x \<in> set xs \<and> P x"
  by (induction xs) (auto split: if_splits)

lemma save_nodes_unique:
  assumes "unique_ids db" and "n \<in> set (nodes db)" and "system_id n' = system_id n"
  shows "nodes (save n' db) = map (\<lambda>m. if m = n then n' else m) (nodes db)"
proof -
  have "(if system_id m = system_id n' then n' else m) = (if m = n then n' else m)"
    if "m \<in> set (nodes db)" for m
    using that assms by (auto dest: unique_ids_eq)
  then show ?thesis by (simp add: save_def cong: map_cong)
qed

lemma unique_ids_save: "unique_ids db \<Longrightarrow> unique_ids (save n db)"
proof -
  have "system_id \<circ> (\<lambda>m. if system_id m = system_id n then n else m) = system_id"
    by (rule ext) simp
  then show "unique_ids db \<Longrightarrow> unique_ids (save n db)"
    by (simp add: unique_ids_def save_def)
qed

lemma save_other_tables:
  "macaddresses (save n db) = macaddresses db" "tokens (save n db) = tokens db"
  by (simp_all add: save_def)

lemma accept_each_result:
  assumes "unique_ids db" and "set ns \<subseteq> set (nodes db)" and "distinct ns"
      and "accept_each u ns db = (Inr rs, db')"
  shows "nodes db' =
           map (\<lambda>m. if m \<in> set ns \<and> status m = DECLARED then m\<lparr>status := READY\<rparr> else m)
             (nodes db)
         \<and> rs = map (\<lambda>n. if status n = DECLARED then Some (n\<lparr>status := READY\<rparr>) else None) ns
         \<and> (\<forall>n \<in> set ns. status n = DECLARED \<or> status n = READY)
         \<and> macaddresses db' = macaddresses db \<and> tokens db' = tokens db"
  using assms
proof (induction ns arbitrary: db rs db')
  case Nil
  then show ?case by (simp add: map_idI)
next
  case (Cons n ns)
  from Cons.prems have n_in: "n \<in> set (nodes db)" and ns_in: "set ns \<subseteq> set (nodes db)"
    and n_notin: "n \<notin> set ns" and dist: "distinct ns"
    by auto
  show ?case
  proof (cases "status n = READY")
    case True
    with Cons.prems(4) obtain rs' where
      rec: "accept_each u ns db = (Inr rs', db')" and rs: "rs = None # rs'"
      by (auto simp: accept_enlistment_def split: prod.splits sum.splits)
    from Cons.IH [OF Cons.prems(1) ns_in dist rec] True rs
    show ?thesis
      by (auto cong: map_cong)
  next
    case False
    with Cons.prems(4) have decl: "status n = DECLARED"
      by (auto simp: accept_enlistment_def split: if_splits)
    let ?n' = "n\<lparr>status := READY\<rparr>"
    let ?db1 = "save ?n' db"
    from Cons.prems(4) decl obtain rs' where
      rec: "accept_each u ns ?db1 = (Inr rs', db')" and rs: "rs = Some ?n' # rs'"
      by (auto simp: accept_enlistment_def Let_def split: prod.splits sum.splits)
    have nodes1: "nodes ?db1 = map (\<lambda>m. if m = n then ?n' else m) (nodes db)"
      using Cons.prems(1) n_in by (rule save_nodes_unique) simp
    have u1: "unique_ids ?db1"
      using Cons.prems(1) by (rule unique_ids_save)
    have ns_in1: "set ns \<subseteq> set (nodes ?db1)"
    proof
      fix m assume m: "m \<in> set ns"
      with n_notin have "m \<noteq> n" by auto
      moreover from m ns_in have "m \<in> set (nodes db)" by auto
      ultimately show "m \<in> set (nodes ?db1)"
        unfolding nodes1 by force
    qed
    have n'_notin: "?n' \<notin> set ns"
    proof
      assume a: "?n' \<in> set ns"
      with ns_in have "?n' \<in> set (nodes db)" by auto
      with Cons.prems(1) n_in have "?n' = n"
        by (auto dest: unique_ids_eq)
      with a n_notin show False by simp
    qed
    from Cons.IH [OF u1 ns_in1 dist rec]
    have ih: "nodes db' =
           map (\<lambda>m. if m \<in> set ns \<and> status m = DECLARED then m\<lparr>status := READY\<rparr> else m)
             (nodes ?db1)"
      and ih_rs: "rs' = map (\<lambda>n. if status n = DECLARED then Some (n\<lparr>status := READY\<rparr>)
                                  else None) ns"
      and ih_st: "\<forall>n \<in> set ns. status n = DECLARED \<or> status n = READY"
      and ih_t: "macaddresses db' = macaddresses ?db1" "tokens db' = tokens ?db1"
      by simp_all
    have "nodes db' =
           map (\<lambda>m. if m \<in> set (n # ns) \<and> status m = DECLARED
                     then m\<lparr>status := READY\<rparr> else m) (nodes db)"
      unfolding ih nodes1 using n_notin n'_notin decl
      by (auto cong: map_cong)
    with ih_rs ih_st ih_t rs decl show ?thesis
      by (simp add: save_other_tables)
  qed
qed

lemma accept_each_succeeds:
  "\<forall>n \<in> set ns. status n = DECLARED \<or> status n = READY
     \<Longrightarrow> \<exists>rs db'. accept_each u ns db = (Inr rs, db')"
proof (induction ns arbitrary: db)
  case Nil
  show ?case by simp
next
  case (Cons n ns)
  then have st: "status n = DECLARED \<or> status n = READY"
    and rest: "\<forall>n \<in> set ns. status n = DECLARED \<or> status n = READY" by auto
  from st obtain r db1 where a: "accept_enlistment n u db = (Inr r, db1)"
    by (auto simp: accept_enlistment_def Let_def)
  from Cons.IH [OF rest, of db1] obtain rs db' where "accept_each u ns db1 = (Inr rs, db')"
    by blast
  with a show ?case by simp
qed


lemma status_of_member:
  "unique_ids db \<Longrightarrow> m \<in> set (nodes db) \<Longrightarrow> status_of db (system_id m) = Some (status m)"
proof -
  assume "unique_ids db" and "m \<in> set (nodes db)"
  then have "find (\<lambda>n. system_id n = system_id m) (nodes db) = Some m"
    by (simp add: unique_ids_def find_unique_iff)
  then show ?thesis by (simp add: status_of_def)
qed

lemma map_filter_changed:
  "List.map_filter (\<lambda>r. r) (map (\<lambda>n. if P n then Some (f n) else None) xs) = map f (filter P xs)"
  by (induction xs) (simp_all add: List.map_filter_simps)

lemma accept_success_shape:
  assumes u: "unique_ids db"
      and ok: "accept e db req = (Inr result, db')"
  shows "nodes db' =
           map (\<lambda>n. if system_id n \<in> set (getlist (POST req) ''nodes'') \<and> status n = DECLARED
                     then n\<lparr>status := READY\<rparr> else n) (nodes db)"
    and "result =
           map (\<lambda>n. n\<lparr>status := READY\<rparr>)
             (filter (\<lambda>n. system_id n \<in> set (getlist (POST req) ''nodes'') \<and> status n = DECLARED)
                (nodes db))"
    and "macaddresses db' = macaddresses db" and "tokens db' = tokens db"
proof -
  let ?batch = "getlist (POST req) ''nodes''"
  let ?ns = "get_nodes e db (user req) ADMIN (remdups ?batch)"
  from ok have len: "\<not> length ?ns < length (remdups ?batch)"
    by (auto simp: accept_def Let_def split: if_splits)
  from ok obtain rs where
    each: "accept_each (user req) ?ns db = (Inr rs, db')"
    and res: "result = List.map_filter (\<lambda>r. r) rs"
    by (auto simp: accept_def Let_def split: if_splits prod.splits sum.splits)
  have perm: "has_perm e (user req) ADMIN m"
    if "m \<in> set (nodes db)" "system_id m \<in> set ?batch" for m
  proof (rule ccontr)
    assume "\<not> has_perm e (user req) ADMIN m"
    with u that have "length ?ns < length (remdups ?batch)"
      by (rule permission_check_fails)
    with len show False by simp
  qed
  have mem: "(m \<in> set ?ns) = (system_id m \<in> set ?batch)" if "m \<in> set (nodes db)" for m
    using that perm by (auto simp: get_nodes_def)
  have ns_eq: "?ns = filter (\<lambda>n. system_id n \<in> set ?batch) (nodes db)"
    using perm by (auto simp: get_nodes_def intro: filter_cong)
  have sub: "set ?ns \<subseteq> set (nodes db)"
    by (auto simp: get_nodes_def)
  have "distinct (nodes db)"
    using u by (simp add: unique_ids_def distinct_map)
  then have dist: "distinct ?ns"
    by (simp add: get_nodes_def)
  note shape = accept_each_result [OF u sub dist each]
  from shape have "nodes db' =
      map (\<lambda>m. if m \<in> set ?ns \<and> status m = DECLARED then m\<lparr>status := READY\<rparr> else m)
        (nodes db)"
    by simp
  then show "nodes db' =
           map (\<lambda>n. if system_id n \<in> set ?batch \<and> status n = DECLARED
                     then n\<lparr>status := READY\<rparr> else n) (nodes db)"
    using mem by (simp cong: map_cong)
  from shape have "rs = map (\<lambda>n. if status n = DECLARED then Some (n\<lparr>status := READY\<rparr>)
                                  else None) ?ns"
    by simp
  with res have "result = map (\<lambda>n. n\<lparr>status := READY\<rparr>) (filter (\<lambda>n. status n = DECLARED) ?ns)"
    by (simp add: map_filter_changed)
  then show "result =
           map (\<lambda>n. n\<lparr>status := READY\<rparr>)
             (filter (\<lambda>n. system_id n \<in> set ?batch \<and> status n = DECLARED) (nodes db))"
    unfolding ns_eq by (simp add: conj_commute)
  from shape show "macaddresses db' = macaddresses db" and "tokens db' = tokens db"
    by simp_all
qed

lemma accept_succeeds:
  assumes u: "unique_ids db"
      and ex: "set (getlist (POST req) ''nodes'') \<subseteq> system_id ` set (nodes db)"
      and all: "\<forall>n \<in> set (nodes db). system_id n \<in> set (getlist (POST req) ''nodes'')
                  \<longrightarrow> has_perm e (user req) ADMIN n \<and> (status n = DECLARED \<or> status n = READY)"
  shows "\<exists>result db'. accept e db req = (Inr result, db')"
proof -
  let ?batch = "getlist (POST req) ''nodes''"
  let ?ns = "get_nodes e db (user req) ADMIN (remdups ?batch)"
  have 1: "\<not> length (remdups (map system_id (nodes db))) < length (remdups ?batch)"
    using ex by (rule existence_check_passes)
  have "system_id ` set ?ns = set ?batch"
    using ex all by (auto simp: get_nodes_def)
  moreover have "distinct (map system_id ?ns)"
    using u by (rule get_nodes_distinct_ids)
  ultimately have "length ?ns = card (set ?batch)"
    using distinct_card [of "map system_id ?ns"] by simp
  then have 2: "\<not> length ?ns < length (remdups ?batch)"
    by (simp add: length_remdups_card_conv)
  have "\<forall>n \<in> set ?ns. status n = DECLARED \<or> status n = READY"
    using all by (auto simp: get_nodes_def)
  then obtain rs db' where "accept_each (user req) ?ns db = (Inr rs, db')"
    using accept_each_succeeds by blast
  with 1 2 show ?thesis
    by (simp add: accept_def Let_def)
qed

lemma db_invariant_save:
  "db_invariant db \<Longrightarrow> owner_invariant n \<Longrightarrow> db_invariant (save n db)"
  by (auto simp: db_invariant_def save_def list_all_iff)

lemma db_invariant_member:
  "db_invariant db \<Longrightarrow> n \<in> set (nodes db) \<Longrightarrow> owner_invariant n"
  by (simp add: db_invariant_def list_all_iff)

lemma accept_enlistment_invariant:
  "db_invariant db \<Longrightarrow> owner_invariant n \<Longrightarrow> db_invariant (snd (accept_enlistment n u db))"
  by (auto simp: accept_enlistment_def Let_def owner_invariant_def intro!: db_invariant_save)

lemma accept_each_invariant:
  "db_invariant db \<Longrightarrow> \<forall>n \<in> set ns. owner_invariant n
     \<Longrightarrow> db_invariant (snd (accept_each u ns db))"
proof (induction ns arbitrary: db)
  case Nil
  then show ?case by simp
next
  case (Cons n ns)
  then have step: "db_invariant (snd (accept_enlistment n u db))"
    by (simp add: accept_enlistment_invariant)
  obtain r db1 where a: "accept_enlistment n u db = (r, db1)" by (cases "accept_enlistment n u db")
  with step have inv1: "db_invariant db1" by simp
  from Cons.prems have "\<forall>n \<in> set ns. owner_invariant n" by simp
  with inv1 have "db_invariant (snd (accept_each u ns db1))" by (rule Cons.IH)
  with a inv1 show ?case
    by (auto split: sum.splits prod.splits)
qed

lemma accept_invariant:
  assumes "db_invariant db"
  shows "db_invariant (snd (accept e db req))"
proof -
  let ?ns = "get_nodes e db (user req) ADMIN (remdups (getlist (POST req) ''nodes''))"
  have "\<forall>n \<in> set ?ns. owner_invariant n"
    using assms by (auto simp: get_nodes_def dest: db_invariant_member)
  with assms have "db_invariant (snd (accept_each (user req) ?ns db))"
    by (rule accept_each_invariant)
  with assms show ?thesis
    by (auto simp: accept_def Let_def split: prod.splits sum.splits)
qed

lemma acquire_invariant:
  assumes "db_invariant db"
  shows "db_invariant (snd (acquire e db req))"
  using assms
  by (auto simp: acquire_def Node_acquire_def Let_def owner_invariant_def
        split: option.splits sum.splits intro!: db_invariant_save)

lemma release_invariant:
  assumes "db_invariant db"
  shows "db_invariant (snd (release e db req sid))"
  using assms
  by (auto simp: release_def Node_release_def Let_def owner_invariant_def
        split: sum.splits intro!: db_invariant_save)

lemma check_commissioning_invariant:
  assumes "db_invariant db"
  shows "db_invariant (check_commissioning e now db req)"
  using assms
  by (auto simp: check_commissioning_def Let_def db_invariant_def list_all_iff
        owner_invariant_def)

lemma create_node_invariant:
  assumes "db_invariant db"
  shows "db_invariant (snd (create_node e now db req))"
    and "create_node e now db req = (Inr n, db') \<Longrightarrow> owner_invariant n"
  using assms
  by (auto simp: create_node_def Let_def db_invariant_def owner_invariant_def
        split: option.splits)

lemma new_invariant:
  assumes "db_invariant db"
  shows "db_invariant (snd (new e now db req))"
proof (cases "create_node e now db req")
  case (Pair r db1)
  with create_node_invariant(1) [OF assms, of e now req] have inv1: "db_invariant db1" by simp
  show ?thesis
  proof (cases r)
    case (Inl err)
    with Pair inv1 show ?thesis by (simp add: new_def)
  next
    case (Inr n)
    with Pair assms have "owner_invariant n" by (auto dest: create_node_invariant(2))
    with inv1 have "db_invariant (snd (accept_enlistment n (user req) db1))"
      by (rule accept_enlistment_invariant)
    with Pair Inr inv1 show ?thesis
      by (auto simp: new_def split: prod.splits sum.splits)
  qed
qed

lemma start_stop_unchanged:
  "snd (start e db req sid) = db" "snd (stop e db req sid) = db"
  by (auto simp: start_def stop_def start_nodes_def stop_nodes_def
        split: option.splits list.splits sum.splits)

section \<open>Properties of release\<close>

text \<open>
  Claim C1. For a node that the request may edit, \<open>release\<close> goes by the node's status:
  a Ready node is returned as it is and the database is untouched (so a repeated call on
  it succeeds again and changes nothing); an Allocated or Reserved node has its owner
  cleared and its status set to Ready, and that node is saved; in every other status the
  call fails with \<open>NodeStateViolation\<close>, its message carrying the node's display
  status, and the database is untouched.
\<close>

theorem release_by_status:
  assumes "get_node_or_404 e db sid (user req) EDIT = Inr n"
  shows "(status n = READY \<longrightarrow>
            release e db req sid = (Inr n, db) \<and>
            release e (snd (release e db req sid)) req sid = (Inr n, db))
       \<and> (status n = ALLOCATED \<or> status n = RESERVED \<longrightarrow>
            release e db req sid =
              (Inr (n\<lparr>status := READY, owner := None\<rparr>),
               save (n\<lparr>status := READY, owner := None\<rparr>) db))
       \<and> (status n \<in> {DECLARED, COMMISSIONING, FAILED_TESTS, RETIRED} \<longrightarrow>
            release e db req sid =
              (Inl (NodeStateViolation
                 (''Node cannot be released in its current state ('' @ [CHR 0x27]
                    @ display_status e n @ [CHR 0x27] @ '').'')), db))"
  using assms
  by (auto simp: release_def Node_release_def Let_def release_violation_message_def)

theorem release_by_status_witness:
  "release env0 db1 (req_of alice) ''n3'' =
     (Inr (mk_node ''n3'' ''gamma'' READY None 20),
      save (mk_node ''n3'' ''gamma'' READY None 20) db1)
   \<and> release env0 db1 (req_of root) ''n2'' = (Inr (mk_node ''n2'' ''beta'' READY None 10), db1)
   \<and> release env0 db1 (req_of root) ''n1'' =
       (Inl (NodeStateViolation
          (''Node cannot be released in its current state ('' @ [CHR 0x27] @ ''Declared''
             @ [CHR 0x27] @ '').'')), db1)"
proof -
  have a: "get_node_or_404 env0 db1 ''n3'' (user (req_of alice)) EDIT
             = Inr (mk_node ''n3'' ''gamma'' ALLOCATED (Some alice) 20)"
    by (simp add: get_node_or_404_def env0_def db1_def mk_node_def req_of_def alice_def)
  have b: "get_node_or_404 env0 db1 ''n2'' (user (req_of root)) EDIT
             = Inr (mk_node ''n2'' ''beta'' READY None 10)"
    by (simp add: get_node_or_404_def env0_def db1_def mk_node_def req_of_def root_def)
  have c: "get_node_or_404 env0 db1 ''n1'' (user (req_of root)) EDIT
             = Inr (mk_node ''n1'' ''alpha'' DECLARED None 0)"
    by (simp add: get_node_or_404_def env0_def db1_def mk_node_def req_of_def root_def)
  show ?thesis
    using release_by_status [OF a] release_by_status [OF b] release_by_status [OF c]
    by (simp add: mk_node_def env0_def status_name_def)
qed

section \<open>Properties of the anonymous accept\<close>

text \<open>
  Claim C10. The anonymous \<open>accept\<close> fails with \<open>Unauthorized\<close> for every request and
  every database, whatever node ids the request names, and leaves the database as it was.
\<close>

theorem anon_accept_unauthorized:
  "anon_accept db req = (Inl (Unauthorized ''You must be logged in to accept nodes.''), db)"
  by (simp add: anon_accept_def)

section \<open>Properties of the commissioning sweep\<close>

text \<open>
  Claim C6. \<open>check_commissioning\<close> keeps the node table row for row. A row whose status
  is Commissioning and whose \<open>updated\<close> time is no later than \<open>now\<close> less the
  configured timeout becomes the same row with status FailedTests: the status column alone
  is written, \<open>updated\<close> and the other fields stay, as no \<open>save()\<close> runs. Every other
  row, a Commissioning row updated after the cutoff among them, stays as it is. The other
  tables are untouched.
\<close>

theorem check_commissioning_sweep:
  assumes "i < length (nodes db)"
  shows "length (nodes (check_commissioning e now db req)) = length (nodes db)
     \<and> (status (nodes db ! i) = COMMISSIONING
          \<and> updated (nodes db ! i) \<le> now - timedelta_minutes (COMMISSIONING_TIMEOUT e)
        \<longrightarrow> nodes (check_commissioning e now db req) ! i
              = (nodes db ! i)\<lparr>status := FAILED_TESTS\<rparr>)
     \<and> (\<not> (status (nodes db ! i) = COMMISSIONING
          \<and> updated (nodes db ! i) \<le> now - timedelta_minutes (COMMISSIONING_TIMEOUT e))
        \<longrightarrow> nodes (check_commissioning e now db req) ! i = nodes db ! i)
     \<and> macaddresses (check_commissioning e now db req) = macaddresses db
     \<and> tokens (check_commissioning e now db req) = tokens db"
  using assms by (simp add: check_commissioning_def Let_def)

theorem check_commissioning_sweep_witness:
  "nodes (check_commissioning env0 3600000030 db1 (req_of alice)) ! 3
     = mk_node ''n4'' ''delta'' FAILED_TESTS None 30
   \<and> nodes (check_commissioning env0 3600000029 db1 (req_of alice)) ! 3
     = mk_node ''n4'' ''delta'' COMMISSIONING None 30
   \<and> nodes (check_commissioning env0 3600000030 db1 (req_of alice)) ! 1
     = mk_node ''n2'' ''beta'' READY None 10"
proof -
  have l3: "3 < length (nodes db1)" and l1: "1 < length (nodes db1)"
    by (simp_all add: db1_def)
  show ?thesis
    using check_commissioning_sweep [OF l3, of env0 3600000030 "req_of alice"]
      check_commissioning_sweep [OF l3, of env0 3600000029 "req_of alice"]
      check_commissioning_sweep [OF l1, of env0 3600000030 "req_of alice"]
    by (simp add: db1_def env0_def mk_node_def timedelta_minutes_def)
qed

section \<open>Properties of is_registered\<close>

text \<open>
  Claim C9. Where \<open>system_id\<close> is unique and the request gives a \<open>mac_address\<close>,
  \<open>is_registered\<close> answers true exactly when some MAC address row has that very address
  and belongs to a node whose status is not Retired. An address found only on Retired
  nodes, or found only in another spelling, gives false.
\<close>

theorem is_registered_iff:
  assumes "unique_ids db" and "QueryDict_get (GET req) ''mac_address'' = Some mac"
  shows "is_registered db req =
           Inr (\<exists>m \<in> set (macaddresses db). mac_address m = mac \<and>
                  (\<exists>n \<in> set (nodes db). system_id n = node_id m \<and> status n \<noteq> RETIRED))"
proof -
  have joined: "(case node_of db m of None \<Rightarrow> False | Some n \<Rightarrow> \<not> (status n = RETIRED))
        = (\<exists>n \<in> set (nodes db). system_id n = node_id m \<and> status n \<noteq> RETIRED)" for m
  proof (cases "node_of db m")
    case None
    then have "\<not> (\<exists>n. node_of db m = Some n)" by simp
    then have "\<not> (\<exists>n \<in> set (nodes db). system_id n = node_id m)"
      using assms(1) by (simp add: node_of_Some_iff)
    with None show ?thesis by auto
  next
    case (Some n)
    have "(k \<in> set (nodes db) \<and> system_id k = node_id m) = (k = n)" for k
      by (auto simp: node_of_Some_iff [OF assms(1), symmetric] Some)
    then show ?thesis unfolding Some by (simp add: Bex_def) metis
  qed
  show ?thesis
    using assms(2)
    by (auto simp: is_registered_def get_mandatory_param_def filter_empty_conv joined)
qed

theorem is_registered_iff_witness:
  "is_registered db1 (get_mac ''AA:BB:CC:DD:EE:FF'') = Inr True
   \<and> is_registered db1 (get_mac ''00:11:22:33:44:55'') = Inr False
   \<and> is_registered db1 (get_mac ''aa:bb:cc:dd:ee:ff'') = Inr False"
proof -
  have u: "unique_ids db1"
    by (simp add: unique_ids_def db1_def mk_node_def)
  have g: "\<And>mac. QueryDict_get (GET (get_mac mac)) ''mac_address'' = Some mac"
    by (simp add: QueryDict_get_def get_mac_def)
  show ?thesis
    using is_registered_iff [OF u g, of "''AA:BB:CC:DD:EE:FF''"]
      is_registered_iff [OF u g, of "''00:11:22:33:44:55''"]
      is_registered_iff [OF u g, of "''aa:bb:cc:dd:ee:ff''"]
    by (simp add: db1_def mk_node_def)
qed

section \<open>Properties of accept\<close>

text \<open>
  Claim C2, evaluated. The batch names two existing nodes and one unknown id, and the
  requester is a superuser. \<open>existing_ids\<close> is read from the whole node table, five ids,
  so that it is not shorter than the batch; the existence check passes, and the call fails
  with \<open>PermissionDenied\<close> for the unknown id and not with \<open>MAASAPIBadRequest\<close>.
\<close>

theorem accept_unknown_id_is_permission_denied:
  "accept env0 db1 (post_nodes root [''n1'', ''n2'', ''unknown''])
     = (Inl (PermissionDenied
          (''You don'' @ [CHR 0x27] @ ''t have the required permission to accept the ''
             @ ''following node(s): unknown.'')), db1)"
  by (simp add: accept_def Let_def getlist_def post_nodes_def req_of_def db1_def mk_node_def
        get_nodes_def env0_def root_def accept_denied_message_def)

text \<open>
  Claim C8. Where \<open>system_id\<close> is unique, every id of the batch names a node of the
  table, and the requester lacks the admin permission on at least one of the named nodes,
  \<open>accept\<close> fails with \<open>PermissionDenied\<close> and the database is returned as it was.
  The message is the text "You don't have the required permission to accept the following
  node(s): ", then the denied ids, each followed by ", " but for the last, then ".". The
  denied ids are listed each once, and they are exactly the ids of the named nodes on
  which the requester lacks the admin permission; there is at least one.
\<close>

theorem accept_permission_denied:
  assumes "unique_ids db"
      and "set (getlist (POST req) ''nodes'') \<subseteq> system_id ` set (nodes db)"
      and "\<exists>n \<in> set (nodes db). system_id n \<in> set (getlist (POST req) ''nodes'')
              \<and> \<not> has_perm e (user req) ADMIN n"
  shows "\<exists>ids. accept e db req =
             (Inl (PermissionDenied
                (''You don'' @ [CHR 0x27] @ ''t have the required permission to accept the ''
                   @ ''following node(s): ''
                   @ concat (map (\<lambda>i. i @ '', '') (butlast ids)) @ last ids @ ''.'')), db)
           \<and> ids \<noteq> []
           \<and> distinct ids
           \<and> set ids =
               set (map system_id
                 (filter (\<lambda>n. system_id n \<in> set (getlist (POST req) ''nodes'')
                            \<and> \<not> has_perm e (user req) ADMIN n) (nodes db)))"
proof -
  let ?batch = "getlist (POST req) ''nodes''"
  let ?ns = "get_nodes e db (user req) ADMIN (remdups ?batch)"
  let ?ids = "filter (\<lambda>i. i \<notin> set (remdups (map system_id ?ns))) (remdups ?batch)"
  have 1: "\<not> length (remdups (map system_id (nodes db))) < length (remdups ?batch)"
    using assms(2) by (rule existence_check_passes)
  have 2: "length ?ns < length (remdups ?batch)"
    using assms(1,3) by (auto intro: permission_check_fails)
  have res: "accept e db req = (Inl (PermissionDenied (accept_denied_message ?ids)), db)"
    using 1 2 by (simp add: accept_def Let_def)
  have d: "distinct ?ids" by simp
  have "set ?ids = {system_id n | n. n \<in> set (nodes db)
                           \<and> system_id n \<in> set ?batch
                           \<and> \<not> has_perm e (user req) ADMIN n}"
    using assms(1,2) by (rule denied_ids_set)
  then have s: "set ?ids =
               set (map system_id
                 (filter (\<lambda>n. system_id n \<in> set ?batch
                            \<and> \<not> has_perm e (user req) ADMIN n) (nodes db)))"
    by auto
  from assms(3) have "set (map system_id
                 (filter (\<lambda>n. system_id n \<in> set ?batch
                            \<and> \<not> has_perm e (user req) ADMIN n) (nodes db))) \<noteq> {}"
    by auto
  then have "set ?ids \<noteq> {}" unfolding s .
  then have ne: "?ids \<noteq> []" using set_empty [of ?ids] by blast
  have "accept_denied_message ?ids =
          ''You don'' @ [CHR 0x27] @ ''t have the required permission to accept the ''
            @ ''following node(s): ''
            @ concat (map (\<lambda>i. i @ '', '') (butlast ?ids)) @ last ?ids @ ''.''"
    unfolding accept_denied_message_def join_butlast_last [OF ne] by simp
  with res have "accept e db req =
             (Inl (PermissionDenied
                (''You don'' @ [CHR 0x27] @ ''t have the required permission to accept the ''
                   @ ''following node(s): ''
                   @ concat (map (\<lambda>i. i @ '', '') (butlast ?ids)) @ last ?ids @ ''.'')), db)"
    by simp
  with ne d s show ?thesis by blast
qed

theorem accept_permission_denied_witness:
  "unique_ids db1
   \<and> set (getlist (POST (post_nodes alice [''n1'', ''n2'', ''n3''])) ''nodes'')
        \<subseteq> system_id ` set (nodes db1)
   \<and> accept env0 db1 (post_nodes alice [''n1'', ''n2'', ''n3'']) =
       (Inl (PermissionDenied
          (''You don'' @ [CHR 0x27] @ ''t have the required permission to accept the ''
             @ ''following node(s): n1, n2, n3.'')), db1)
   \<and> accept (env0\<lparr>has_perm := (\<lambda>u p n. system_id n \<noteq> ''n2'')\<rparr>) db1
        (post_nodes alice [''n1'', ''n2'', ''n3'']) =
       (Inl (PermissionDenied
          (''You don'' @ [CHR 0x27] @ ''t have the required permission to accept the ''
             @ ''following node(s): n2.'')), db1)"
proof -
  let ?req = "post_nodes alice [''n1'', ''n2'', ''n3'']"
  let ?e2 = "env0\<lparr>has_perm := (\<lambda>u p n. system_id n \<noteq> ''n2'')\<rparr>"
  have u: "unique_ids db1"
    by (simp add: unique_ids_def db1_def mk_node_def)
  have s: "set (getlist (POST ?req) ''nodes'') \<subseteq> system_id ` set (nodes db1)"
    by (simp add: getlist_def post_nodes_def req_of_def db1_def mk_node_def)
  have d1: "\<exists>n \<in> set (nodes db1). system_id n \<in> set (getlist (POST ?req) ''nodes'')
             \<and> \<not> has_perm env0 (user ?req) ADMIN n"
    by (simp add: getlist_def post_nodes_def req_of_def db1_def mk_node_def env0_def alice_def)
  have d2: "\<exists>n \<in> set (nodes db1). system_id n \<in> set (getlist (POST ?req) ''nodes'')
             \<and> \<not> has_perm ?e2 (user ?req) ADMIN n"
    by (simp add: getlist_def post_nodes_def req_of_def db1_def mk_node_def)
  have r1: "accept env0 db1 ?req =
       (Inl (PermissionDenied
          (''You don'' @ [CHR 0x27] @ ''t have the required permission to accept the ''
             @ ''following node(s): n1, n2, n3.'')), db1)"
    by (simp add: accept_def Let_def getlist_def post_nodes_def req_of_def db1_def mk_node_def
          get_nodes_def env0_def alice_def accept_denied_message_def)
  have r2: "accept ?e2 db1 ?req =
       (Inl (PermissionDenied
          (''You don'' @ [CHR 0x27] @ ''t have the required permission to accept the ''
             @ ''following node(s): n2.'')), db1)"
    by (simp add: accept_def Let_def getlist_def post_nodes_def req_of_def db1_def mk_node_def
          get_nodes_def accept_denied_message_def)
  show ?thesis
    using u s r1 r2 accept_permission_denied [OF u s d1] accept_permission_denied [OF u s d2]
    by simp
qed

section \<open>Properties of acquire\<close>

text \<open>
  Claim C3. \<open>acquire\<close> takes its node from the candidates only: the nodes that are
  Ready, visible to the requester and, when the request gives a \<open>name\<close>, of that name
  (without a \<open>name\<close> every visible Ready node is a candidate).
  \<^item> With no candidate, the call fails with \<open>NodesNotAvailable\<close> and the database is
    returned as it was.
  \<^item> A successful call returns a candidate with the owner set to the requester and the
    status set to Allocated, and the database in which that node is saved.
  \<^item> Every failing call returns the database as it was.
  \<^item> With a candidate and a known OAuth token the call succeeds.
  \<^item> Two requests of the same user with the same authorization header and the same values
    for \<open>name\<close> get the same answer, whatever their other parameters are.
\<close>

theorem acquire_spec:
  "((\<forall>n \<in> set (nodes db). \<not> is_candidate e req n) \<longrightarrow>
       acquire e db req = (Inl (NodesNotAvailable ''No matching node is available.''), db))
   \<and> (\<forall>n' db'. acquire e db req = (Inr n', db') \<longrightarrow>
         (\<exists>n \<in> set (nodes db). is_candidate e req n
            \<and> n' = n\<lparr>status := ALLOCATED, owner := Some (user req)\<rparr>
            \<and> db' = save n' db))
   \<and> (\<forall>err db'. acquire e db req = (Inl err, db') \<longrightarrow> db' = db)
   \<and> ((\<exists>n \<in> set (nodes db). is_candidate e req n) \<and> (\<exists>t. get_oauth_token db req = Inr t)
         \<longrightarrow> (\<exists>n'. fst (acquire e db req) = Inr n'))
   \<and> (\<forall>req' :: request. user req' = user req \<and> HTTP_AUTHORIZATION req' = HTTP_AUTHORIZATION req
          \<and> data req' ''name'' = data req ''name''
         \<longrightarrow> acquire e db req' = acquire e db req)"
proof (intro conjI allI impI)
  assume "\<forall>n \<in> set (nodes db). \<not> is_candidate e req n"
  then have "find (is_candidate e req) (nodes db) = None"
    by (simp add: find_None_iff)
  then show "acquire e db req = (Inl (NodesNotAvailable ''No matching node is available.''), db)"
    by (simp add: acquire_def available_node_is_find)
next
  fix n' db'
  assume a: "acquire e db req = (Inr n', db')"
  then obtain n where f: "find (is_candidate e req) (nodes db) = Some n"
    by (auto simp: acquire_def available_node_is_find split: option.splits)
  then have m: "n \<in> set (nodes db) \<and> is_candidate e req n"
    by (rule find_Some_member)
  from a f have "n' = n\<lparr>status := ALLOCATED, owner := Some (user req)\<rparr> \<and> db' = save n' db"
    by (auto simp: acquire_def available_node_is_find Node_acquire_def Let_def
          split: sum.splits)
  with m show "\<exists>n \<in> set (nodes db). is_candidate e req n
            \<and> n' = n\<lparr>status := ALLOCATED, owner := Some (user req)\<rparr>
            \<and> db' = save n' db"
    by blast
next
  fix err db'
  assume "acquire e db req = (Inl err, db')"
  then show "db' = db"
    by (auto simp: acquire_def Node_acquire_def Let_def split: option.splits sum.splits)
next
  assume "(\<exists>n \<in> set (nodes db). is_candidate e req n) \<and> (\<exists>t. get_oauth_token db req = Inr t)"
  then obtain t where c: "\<exists>n \<in> set (nodes db). is_candidate e req n"
    and t: "get_oauth_token db req = Inr t" by blast
  from c have "find (is_candidate e req) (nodes db) \<noteq> None"
    by (auto simp: find_None_iff)
  then obtain n where "find (is_candidate e req) (nodes db) = Some n" by auto
  with t show "\<exists>n'. fst (acquire e db req) = Inr n'"
    by (simp add: acquire_def available_node_is_find Node_acquire_def Let_def)
next
  fix req' :: request
  assume h: "user req' = user req \<and> HTTP_AUTHORIZATION req' = HTTP_AUTHORIZATION req
          \<and> data req' ''name'' = data req ''name''"
  then have "is_candidate e req' = is_candidate e req"
    by (auto simp: is_candidate_def QueryDict_get_def fun_eq_iff)
  moreover from h have "get_oauth_token db req' = get_oauth_token db req"
    by (simp add: get_oauth_token_def extract_oauth_key_def)
  moreover from h have "user req' = user req" by simp
  ultimately show "acquire e db req' = acquire e db req"
    unfolding acquire_def available_node_is_find
    by (simp split: option.splits sum.splits)
qed

theorem acquire_spec_witness:
  "acquire env0 db1 (acquire_req alice []) =
     (Inr (mk_node ''n2'' ''beta'' ALLOCATED (Some alice) 10),
      save (mk_node ''n2'' ''beta'' ALLOCATED (Some alice) 10) db1)
   \<and> acquire env0 db1 (acquire_req alice [''beta'']) =
     (Inr (mk_node ''n2'' ''beta'' ALLOCATED (Some alice) 10),
      save (mk_node ''n2'' ''beta'' ALLOCATED (Some alice) 10) db1)
   \<and> acquire env0 db1 (acquire_req alice [''gamma'']) =
     (Inl (NodesNotAvailable ''No matching node is available.''), db1)"
proof -
  have t: "get_oauth_token db1 (acquire_req alice ns) = Inr ''tok''" for ns
    by (simp add: get_oauth_token_def extract_oauth_key_def acquire_req_def req_of_def
          extract_oauth_key_from_auth_header_def is_space_def split_eq1_def
          rstrip_strip_def db1_def)
  have none: "\<forall>n \<in> set (nodes db1). \<not> is_candidate env0 (acquire_req alice [''gamma'']) n"
    by (simp add: is_candidate_def db1_def mk_node_def acquire_req_def req_of_def
          QueryDict_get_def env0_def)
  have f1: "find (is_candidate env0 (acquire_req alice [])) (nodes db1)
              = Some (mk_node ''n2'' ''beta'' READY None 10)"
    by (simp add: is_candidate_def db1_def mk_node_def acquire_req_def req_of_def
          QueryDict_get_def env0_def no_params_def)
  have f2: "find (is_candidate env0 (acquire_req alice [''beta''])) (nodes db1)
              = Some (mk_node ''n2'' ''beta'' READY None 10)"
    by (simp add: is_candidate_def db1_def mk_node_def acquire_req_def req_of_def
          QueryDict_get_def env0_def no_params_def)
  have u: "user (acquire_req alice ns) = alice" for ns
    by (simp add: acquire_req_def req_of_def)
  have ok1: "acquire env0 db1 (acquire_req alice []) =
        (Inr (mk_node ''n2'' ''beta'' ALLOCATED (Some alice) 10),
         save (mk_node ''n2'' ''beta'' ALLOCATED (Some alice) 10) db1)"
    unfolding acquire_def available_node_is_find f1 t
    by (simp add: Node_acquire_def Let_def mk_node_def u)
  have ok2: "acquire env0 db1 (acquire_req alice [''beta'']) =
        (Inr (mk_node ''n2'' ''beta'' ALLOCATED (Some alice) 10),
         save (mk_node ''n2'' ''beta'' ALLOCATED (Some alice) 10) db1)"
    unfolding acquire_def available_node_is_find f2 t
    by (simp add: Node_acquire_def Let_def mk_node_def u)
  show ?thesis
    using acquire_spec [of db1 env0 "acquire_req alice [''gamma'']"] none ok1 ok2
    by simp
qed

text \<open>
  Claim C7. Where \<open>system_id\<close> is unique, a successful \<open>accept\<close> leaves the node table
  with every Declared node of the batch set to Ready and every other row as it was; a
  node of the batch that was Ready already is still in the table, unchanged, and is not
  part of the result; the result is the list of the nodes that went from Declared to
  Ready, which are exactly the rows of the new table whose status differs from the status
  stored under their id before. The other tables are untouched. The call does succeed
  when every id of the batch names a node, the requester has the admin permission on each
  of them, and each of them is Declared or Ready.
\<close>

theorem accept_success:
  assumes u: "unique_ids db"
  shows "(\<forall>result db'. accept e db req = (Inr result, db') \<longrightarrow>
            nodes db' =
              map (\<lambda>n. if system_id n \<in> set (getlist (POST req) ''nodes'') \<and> status n = DECLARED
                        then n\<lparr>status := READY\<rparr> else n) (nodes db)
          \<and> result =
              map (\<lambda>n. n\<lparr>status := READY\<rparr>)
                (filter (\<lambda>n. system_id n \<in> set (getlist (POST req) ''nodes'')
                           \<and> status n = DECLARED) (nodes db))
          \<and> (\<forall>n \<in> set (nodes db).
                system_id n \<in> set (getlist (POST req) ''nodes'') \<and> status n = READY
                  \<longrightarrow> n \<in> set (nodes db') \<and> n \<notin> set result)
          \<and> set result =
               {n' \<in> set (nodes db'). status_of db (system_id n') \<noteq> Some (status n')}
          \<and> macaddresses db' = macaddresses db \<and> tokens db' = tokens db)
       \<and> (set (getlist (POST req) ''nodes'') \<subseteq> system_id ` set (nodes db)
            \<and> (\<forall>n \<in> set (nodes db). system_id n \<in> set (getlist (POST req) ''nodes'')
                  \<longrightarrow> has_perm e (user req) ADMIN n \<and> (status n = DECLARED \<or> status n = READY))
          \<longrightarrow> (\<exists>result db'. accept e db req = (Inr result, db')))"
proof (intro conjI allI impI)
  fix result db'
  assume ok: "accept e db req = (Inr result, db')"
  let ?batch = "getlist (POST req) ''nodes''"
  let ?F = "\<lambda>n. if system_id n \<in> set ?batch \<and> status n = DECLARED
                 then n\<lparr>status := READY\<rparr> else n"
  note shape = accept_success_shape [OF u ok]
  show nd: "nodes db' = map ?F (nodes db)" by (rule shape(1))
  show rs: "result = map (\<lambda>n. n\<lparr>status := READY\<rparr>)
                (filter (\<lambda>n. system_id n \<in> set ?batch \<and> status n = DECLARED) (nodes db))"
    by (rule shape(2))
  show "macaddresses db' = macaddresses db" by (rule shape(3))
  show "tokens db' = tokens db" by (rule shape(4))
  show "\<forall>n \<in> set (nodes db). system_id n \<in> set ?batch \<and> status n = READY
          \<longrightarrow> n \<in> set (nodes db') \<and> n \<notin> set result"
  proof (intro ballI impI)
    fix n assume n: "n \<in> set (nodes db)" and r: "system_id n \<in> set ?batch \<and> status n = READY"
    then have "?F n = n" by simp
    with n have 1: "n \<in> set (nodes db')" unfolding nd by force
    have 2: "n \<notin> set result"
    proof
      assume "n \<in> set result"
      then obtain m where m: "m \<in> set (nodes db)" "status m = DECLARED"
        "n = m\<lparr>status := READY\<rparr>" unfolding rs by auto
      then have "system_id m = system_id n" by simp
      with u m(1) n have "m = n" by (auto dest: unique_ids_eq)
      with m(2) r show False by simp
    qed
    from 1 2 show "n \<in> set (nodes db') \<and> n \<notin> set result" ..
  qed
  show "set result = {n' \<in> set (nodes db'). status_of db (system_id n') \<noteq> Some (status n')}"
  proof (intro equalityI subsetI)
    fix n' assume "n' \<in> set result"
    then obtain m where m: "m \<in> set (nodes db)" "system_id m \<in> set ?batch"
      "status m = DECLARED" "n' = m\<lparr>status := READY\<rparr>" unfolding rs by auto
    then have f: "?F m = n'" by simp
    with m(1) have "n' \<in> set (nodes db')" unfolding nd by force
    moreover have "status_of db (system_id n') = Some DECLARED"
      using status_of_member [OF u m(1)] m(3,4) by simp
    ultimately show "n' \<in> {n' \<in> set (nodes db'). status_of db (system_id n') \<noteq> Some (status n')}"
      using m(4) by simp
  next
    fix n' assume "n' \<in> {n' \<in> set (nodes db'). status_of db (system_id n') \<noteq> Some (status n')}"
    then have in': "n' \<in> set (nodes db')"
      and ch: "status_of db (system_id n') \<noteq> Some (status n')" by auto
    from in' obtain m where m: "m \<in> set (nodes db)" "n' = ?F m" unfolding nd by auto
    have "system_id n' = system_id m" using m(2) by simp
    with ch status_of_member [OF u m(1)] have "status n' \<noteq> status m" by simp
    with m(2) have "system_id m \<in> set ?batch \<and> status m = DECLARED"
      by (auto split: if_splits)
    with m show "n' \<in> set result" unfolding rs by auto
  qed
next
  assume "set (getlist (POST req) ''nodes'') \<subseteq> system_id ` set (nodes db)
            \<and> (\<forall>n \<in> set (nodes db). system_id n \<in> set (getlist (POST req) ''nodes'')
                  \<longrightarrow> has_perm e (user req) ADMIN n \<and> (status n = DECLARED \<or> status n = READY))"
  then show "\<exists>result db'. accept e db req = (Inr result, db')"
    using accept_succeeds [OF u] by blast
qed

theorem accept_success_witness:
  "unique_ids db1
   \<and> accept env0 db1 (post_nodes root [''n1'', ''n2'']) =
       (Inr [mk_node ''n1'' ''alpha'' READY None 0],
        db1\<lparr>nodes :=
          [mk_node ''n1'' ''alpha'' READY None 0,
           mk_node ''n2'' ''beta'' READY None 10,
           mk_node ''n3'' ''gamma'' ALLOCATED (Some alice) 20,
           mk_node ''n4'' ''delta'' COMMISSIONING None 30,
           mk_node ''n5'' ''epsilon'' RETIRED None 40]\<rparr>)"
proof -
  let ?req = "post_nodes root [''n1'', ''n2'']"
  have u: "unique_ids db1"
    by (simp add: unique_ids_def db1_def mk_node_def)
  have b: "getlist (POST ?req) ''nodes'' = [''n1'', ''n2'']"
    by (simp add: getlist_def post_nodes_def req_of_def)
  have pre: "set (getlist (POST ?req) ''nodes'') \<subseteq> system_id ` set (nodes db1)
      \<and> (\<forall>n \<in> set (nodes db1). system_id n \<in> set (getlist (POST ?req) ''nodes'')
            \<longrightarrow> has_perm env0 (user ?req) ADMIN n \<and> (status n = DECLARED \<or> status n = READY))"
    unfolding b
    by (simp add: db1_def mk_node_def env0_def post_nodes_def req_of_def root_def)
  from accept_success [OF u, of env0 ?req] pre
  obtain result db' where ok: "accept env0 db1 ?req = (Inr result, db')"
    by blast
  with accept_success [OF u, of env0 ?req]
  have "nodes db' =
          map (\<lambda>n. if system_id n \<in> set (getlist (POST ?req) ''nodes'') \<and> status n = DECLARED
                    then n\<lparr>status := READY\<rparr> else n) (nodes db1)"
    and "result = map (\<lambda>n. n\<lparr>status := READY\<rparr>)
                (filter (\<lambda>n. system_id n \<in> set (getlist (POST ?req) ''nodes'')
                           \<and> status n = DECLARED) (nodes db1))"
    and "macaddresses db' = macaddresses db1" and "tokens db' = tokens db1"
    by blast+
  then have "result = [mk_node ''n1'' ''alpha'' READY None 0]"
    and "db' = db1\<lparr>nodes :=
          [mk_node ''n1'' ''alpha'' READY None 0,
           mk_node ''n2'' ''beta'' READY None 10,
           mk_node ''n3'' ''gamma'' ALLOCATED (Some alice) 20,
           mk_node ''n4'' ''delta'' COMMISSIONING None 30,
           mk_node ''n5'' ''epsilon'' RETIRED None 40]\<rparr>"
    unfolding b by (simp_all add: db1_def mk_node_def)
  with ok u show ?thesis by simp
qed

section \<open>The owner invariant\<close>

text \<open>
  Claim C5. If every node of the table has an owner exactly when it is Allocated or
  Reserved, then the same holds of the table left behind by each operation of the
  lifecycle, whether it succeeds or fails: enlistment (the anonymous \<open>new\<close> and the
  \<open>new\<close> of a logged-in user, which accepts at once for a superuser), \<open>accept\<close>,
  \<open>acquire\<close>, \<open>release\<close>, the commissioning sweep, \<open>start\<close> and \<open>stop\<close>.
\<close>

theorem owner_invariant_preserved:
  assumes "db_invariant db"
  shows "db_invariant (snd (anon_new e now db req))
       \<and> db_invariant (snd (new e now db req))
       \<and> db_invariant (snd (accept e db req))
       \<and> db_invariant (snd (acquire e db req))
       \<and> db_invariant (snd (release e db req sid))
       \<and> db_invariant (check_commissioning e now db req)
       \<and> db_invariant (snd (start e db req sid))
       \<and> db_invariant (snd (stop e db req sid))"
  using assms
  by (simp add: anon_new_def create_node_invariant(1) new_invariant accept_invariant
        acquire_invariant release_invariant check_commissioning_invariant
        start_stop_unchanged)

theorem owner_invariant_preserved_witness:
  "db_invariant db1
   \<and> db_invariant (snd (release env0 db1 (req_of alice) ''n3''))
   \<and> db_invariant (snd (acquire env0 db1 (acquire_req alice [])))
   \<and> db_invariant (snd (accept env0 db1 (post_nodes root [''n1'', ''n2''])))
   \<and> db_invariant (check_commissioning env0 3600000030 db1 (req_of alice))"
proof -
  have i: "db_invariant db1"
    by (simp add: db_invariant_def owner_invariant_def db1_def mk_node_def)
  show ?thesis
    using i owner_invariant_preserved [OF i, of env0 3600000030 "req_of alice" "''n3''"]
      owner_invariant_preserved [OF i, of env0 0 "acquire_req alice []" "''n3''"]
      owner_invariant_preserved [OF i, of env0 0 "post_nodes root [''n1'', ''n2'']" "''n3''"]
    by simp
qed

end
